theory Spec2Isabelle
  imports Main "HOL-Library.Word" "HOL-Library.AList"
begin

unbundle bit_operations_syntax

chapter \<open>The vrouter agent: flow statistics, task policy and VRF lifetime\<close>

text \<open>
  A shallow embedding of three parts of the agent:
  \<^item> the flow statistics collector (\<open>FlowStatsCollector\<close>, second half of
    \<open>src/vnsw/agent/oper/vrf.cc\<close> as delivered): counter composition, wrap-around
    handling, the aging test, the aging pass \<open>Run\<close> and the export of flow records;
  \<^item> the task exclusion policy installed by \<open>Agent::SetAgentTaskPolicy\<close>;
  \<^item> the deletion protocol of VRF entries (\<open>VrfTable\<close>, \<open>VrfEntry\<close>).
  Machine integers are words of the width the source declares; pointers to flow entries
  are addresses into an explicit heap, because a flow and its reverse flow alias each other.
\<close>

section \<open>Data model of the flow statistics collector\<close>

type_synonym u8 = "8 word"
type_synonym u16 = "16 word"
type_synonym u32 = "32 word"
type_synonym u64 = "64 word"

text \<open>A \<open>FlowEntry *\<close>; \<open>None\<close> of type \<open>addr option\<close> is the null pointer.\<close>
type_synonym addr = nat

type_synonym uuid = "128 word"

text \<open>
  Modelled from the spec: the kernel's flow record, \<open>vr_flow_entry\<close> with its \<open>fe_stats\<close>,
  which is declared in a kernel header outside the sources. Section 6, kernel flow
  table: \<open>flow_bytes: u32\<close>, \<open>flow_packets: u32\<close>, \<open>flow_bytes_oflow: u16\<close>,
  \<open>flow_packets_oflow: u8\<close>. \<open>GetFlowStats\<close> takes either overflow counter as a
  \<open>uint16_t\<close>, so the 8-bit one is widened at the call.
\<close>
record vr_flow_stats =
  flow_bytes :: u32
  flow_packets :: u32
  flow_bytes_oflow :: u16
  flow_packets_oflow :: u8

record vr_flow_entry =
  fe_stats :: vr_flow_stats

text \<open>\<open>FlowKey\<close>, with the fields the collector reads: \<open>key.src.ipv4\<close>, \<open>key.dst.ipv4\<close>,
  \<open>key.protocol\<close>, \<open>key.src_port\<close>, \<open>key.dst_port\<close>. The classes of the flow table are
  declared outside the sources; their fields are taken as the collector uses them.\<close>
record FlowKey =
  src_ipv4 :: u32
  dst_ipv4 :: u32
  protocol :: u8
  src_port :: u16
  dst_port :: u16

text \<open>Modelled from the spec: \<open>FlowKey::Reset\<close> (the flow table's header is not among the
  sources). Section 4.5, timer: a pass that has come to the end starts again from the
  beginning; the key is cleared, so that every key of the table is above it.\<close>
definition FlowKey_Reset :: FlowKey where
  "FlowKey_Reset = \<lparr>src_ipv4 = 0, dst_ipv4 = 0, protocol = 0, src_port = 0, dst_port = 0\<rparr>"

record FlowData =
  source_vn :: string
  dest_vn :: string
  bytes :: u64
  packets :: u64
  ingress :: bool
  reverse_flow :: "addr option"

text \<open>\<open>FlowEntry\<close>. The source's field \<open>nat\<close> is \<open>nat_flow\<close> here, since \<open>nat\<close> is a type
  of HOL.\<close>
record FlowEntry =
  key :: FlowKey
  data :: FlowData
  flow_uuid :: uuid
  egress_uuid :: uuid
  intf_in :: u32
  flow_handle :: u32
  nat_flow :: bool
  local_flow :: bool
  short_flow :: bool
  setup_time :: u64
  teardown_time :: u64
  last_modified_time :: u64

text \<open>
  \<open>FlowDataIpv4\<close>, the generated export record. Fields that \<open>FlowExport\<close> sets only under
  a condition are optional. Five field names of the generated class also name fields of
  the flow entry; they carry the suffix \<open>_s\<close> here.
\<close>
record FlowDataIpv4 =
  flowuuid :: string
  bytes_s :: u64
  packets_s :: u64
  diff_bytes :: u64
  diff_packets :: u64
  sourceip :: u32
  destip :: u32
  protocol_s :: u8
  sport :: u16
  dport :: u16
  sourcevn :: string
  destvn :: string
  vm :: "string option"
  reverse_uuid :: "string option"
  setup_time_s :: u64
  teardown_time_s :: "u64 option"
  direction_ing :: u8

definition FlowDataIpv4_new :: FlowDataIpv4 where
  "FlowDataIpv4_new =
     \<lparr>flowuuid = [], bytes_s = 0, packets_s = 0, diff_bytes = 0, diff_packets = 0,
      sourceip = 0, destip = 0, protocol_s = 0, sport = 0, dport = 0,
      sourcevn = [], destvn = [], vm = None, reverse_uuid = None,
      setup_time_s = 0, teardown_time_s = None, direction_ing = 0\<rparr>"

text \<open>
  What the collector reads from outside the sources:
  \<^item> \<open>GetKernelFlowEntry\<close>: the kernel flow table by flow handle (null when absent);
  \<^item> \<open>GetFlowAgeTime\<close>: the configured age time, widened to 64 bit as the comparison in
    \<open>ShouldBeAged\<close> widens it;
  \<^item> \<open>to_string\<close> on UUIDs;
  \<^item> \<open>kInvalidIndex\<close> and the interface table: \<open>FindVmCfgName i\<close> is the configured name
    of the VM bound to interface \<open>i\<close> when that interface exists, is a VM port and has a
    VM entry;
  \<^item> \<open>key_less\<close>: the ordering of \<open>FlowKey\<close> that sorts the flow table.
\<close>
record collector_env =
  GetKernelFlowEntry :: "u32 \<Rightarrow> vr_flow_entry option"
  GetFlowAgeTime :: u64
  to_string :: "uuid \<Rightarrow> string"
  kInvalidIndex :: u32
  FindVmCfgName :: "u32 \<Rightarrow> string option"
  key_less :: "FlowKey \<Rightarrow> FlowKey \<Rightarrow> bool"

section \<open>Counters\<close>

text \<open>\<open>FlowStatsCollector::GetFlowStats\<close>: the shift is \<open>sizeof(uint32_t) * 8\<close>.\<close>
definition GetFlowStats :: "u16 \<Rightarrow> u32 \<Rightarrow> u64" where
  "GetFlowStats oflow_data data_lo =
     (let flow_stats = push_bit (4 * 8) (ucast oflow_data :: u64)
      in flow_stats OR ucast data_lo)"

definition GetUpdatedFlowBytes :: "FlowEntry \<Rightarrow> u64 \<Rightarrow> u64" where
  "GetUpdatedFlowBytes fe k_flow_bytes =
     (let oflow_bytes = 0xffff000000000000 AND bytes (data fe);
          old_bytes = 0x0000ffffffffffff AND bytes (data fe);
          oflow_bytes = (if old_bytes > k_flow_bytes
                         then oflow_bytes + 0x0001000000000000 else oflow_bytes)
      in oflow_bytes OR k_flow_bytes)"

definition GetUpdatedFlowPackets :: "FlowEntry \<Rightarrow> u64 \<Rightarrow> u64" where
  "GetUpdatedFlowPackets fe k_flow_pkts =
     (let oflow_pkts = 0xffffff0000000000 AND packets (data fe);
          old_pkts = 0x000000ffffffffff AND packets (data fe);
          oflow_pkts = (if old_pkts > k_flow_pkts
                        then oflow_pkts + 0x0000010000000000 else oflow_pkts)
      in oflow_pkts OR k_flow_pkts)"

section \<open>The aging test\<close>

text \<open>\<open>FlowStatsCollector::ShouldBeAged\<close>. The kernel's 32-bit counters are widened for
  the comparison with the 64-bit counters of the entry; the time difference wraps.\<close>
definition ShouldBeAged :: "collector_env \<Rightarrow> FlowEntry \<Rightarrow> vr_flow_entry option \<Rightarrow> u64 \<Rightarrow> bool" where
  "ShouldBeAged env entry k_flow curr_time =
     (case k_flow of
        Some k \<Rightarrow>
          if bytes (data entry) < ucast (flow_bytes (fe_stats k)) \<and>
             packets (data entry) < ucast (flow_packets (fe_stats k))
          then False
          else (let diff_time = curr_time - last_modified_time entry
                in if diff_time < GetFlowAgeTime env then False else True)
      | None \<Rightarrow>
          (let diff_time = curr_time - last_modified_time entry
           in if diff_time < GetFlowAgeTime env then False else True))"

section \<open>Export\<close>

text \<open>\<open>FlowStatsCollector::SourceIpOverride\<close>; \<open>h\<close> is the heap the reverse-flow pointer
  is read in.\<close>
definition SourceIpOverride :: "(addr \<Rightarrow> FlowEntry) \<Rightarrow> FlowEntry \<Rightarrow> FlowDataIpv4 \<Rightarrow> FlowDataIpv4" where
  "SourceIpOverride h flow s_flow =
     (let rev_flow = reverse_flow (data flow)
      in if nat_flow flow \<and> direction_ing s_flow \<noteq> 0 \<and> rev_flow \<noteq> None
         then (let nat_key = key (h (the rev_flow))
               in if src_ipv4 (key flow) \<noteq> dst_ipv4 nat_key
                  then s_flow\<lparr>sourceip := dst_ipv4 nat_key\<rparr>
                  else s_flow)
         else s_flow)"

text \<open>\<open>FlowStatsCollector::FlowExport\<close>. The result is the list of records handed to
  \<open>FLOW_DATA_IPV4_OBJECT_SEND\<close>, in the order sent.\<close>
definition FlowExport :: "collector_env \<Rightarrow> (addr \<Rightarrow> FlowEntry) \<Rightarrow> FlowEntry \<Rightarrow> u64 \<Rightarrow> u64 \<Rightarrow> FlowDataIpv4 list" where
  "FlowExport env h flow diff_bytes_v diff_pkts =
     (let s_flow = FlowDataIpv4_new
            \<lparr>flowuuid := to_string env (flow_uuid flow),
             bytes_s := bytes (data flow),
             packets_s := packets (data flow),
             diff_bytes := diff_bytes_v,
             diff_packets := diff_pkts,
             sourceip := src_ipv4 (key flow),
             destip := dst_ipv4 (key flow),
             protocol_s := protocol (key flow),
             sport := src_port (key flow),
             dport := dst_port (key flow),
             sourcevn := source_vn (data flow),
             destvn := dest_vn (data flow)\<rparr>;
          s_flow = (if intf_in flow \<noteq> kInvalidIndex env
                    then (case FindVmCfgName env (intf_in flow) of
                            Some n \<Rightarrow> s_flow\<lparr>vm := Some n\<rparr>
                          | None \<Rightarrow> s_flow)
                    else s_flow);
          s_flow = (case reverse_flow (data flow) of
                      Some r \<Rightarrow> s_flow\<lparr>reverse_uuid := Some (to_string env (flow_uuid (h r)))\<rparr>
                    | None \<Rightarrow> s_flow);
          s_flow = s_flow\<lparr>setup_time_s := setup_time flow\<rparr>;
          s_flow = (if teardown_time flow \<noteq> 0
                    then s_flow\<lparr>teardown_time_s := Some (teardown_time flow)\<rparr>
                    else s_flow)
      in if local_flow flow
         then (let s_ing = SourceIpOverride h flow (s_flow\<lparr>direction_ing := 1\<rparr>);
                   s_egr = s_ing\<lparr>direction_ing := 0,
                                 flowuuid := to_string env (egress_uuid flow)\<rparr>
               in [s_ing, s_egr])
         else if ingress (data flow)
              then [SourceIpOverride h flow (s_flow\<lparr>direction_ing := 1\<rparr>)]
              else [s_flow\<lparr>direction_ing := 0\<rparr>])"

section \<open>The aging pass\<close>

text \<open>
  The collector together with the flow table it walks. \<open>flow_entry_map\<close> is the
  \<open>std::map\<close> from key to entry pointer, listed in key order; the entries themselves live
  in \<open>heap\<close>. \<open>sent\<close> collects the exported records and \<open>vn_stats\<close> the calls of
  \<open>UpdateVnStats\<close>, both in order. The members of the class end in an underscore in the
  source.
\<close>
record FlowStatsCollector =
  heap :: "addr \<Rightarrow> FlowEntry"
  flow_entry_map :: "(FlowKey \<times> addr) list"
  run_counter :: u32
  flow_iteration_key :: FlowKey
  flow_count_per_pass :: u32
  flow_multiplier :: u32
  flow_default_interval :: u32
  expiry_time :: u32
  sent :: "FlowDataIpv4 list"
  vn_stats :: "(addr \<times> u64 \<times> u64) list"






text \<open>\<open>FlowStatsCollector::Run\<close>, the reconciliation of the counters of an entry that
  stays, with the kernel record \<open>k_flow\<close>.\<close>
definition Run_stats :: "collector_env \<Rightarrow> u64 \<Rightarrow> addr \<Rightarrow> vr_flow_entry \<Rightarrow> FlowStatsCollector \<Rightarrow> FlowStatsCollector" where
  "Run_stats env curr_time entry k_flow s =
     (let e = heap s entry
      in if bytes (data e) \<noteq> ucast (flow_bytes (fe_stats k_flow))
         then (let flow_bytes_v = GetFlowStats (flow_bytes_oflow (fe_stats k_flow))
                                               (flow_bytes (fe_stats k_flow));
                   flow_packets_v = GetFlowStats (ucast (flow_packets_oflow (fe_stats k_flow)))
                                                 (flow_packets (fe_stats k_flow));
                   flow_bytes_v = GetUpdatedFlowBytes e flow_bytes_v;
                   flow_packets_v = GetUpdatedFlowPackets e flow_packets_v;
                   diff_bytes_v = flow_bytes_v - bytes (data e);
                   diff_pkts = flow_packets_v - packets (data e);
                   s = s\<lparr>vn_stats := vn_stats s @ [(entry, diff_bytes_v, diff_pkts)]\<rparr>;
                   e = e\<lparr>data := (data e)\<lparr>bytes := flow_bytes_v, packets := flow_packets_v\<rparr>,
                         last_modified_time := curr_time\<rparr>;
                   s = s\<lparr>heap := (heap s)(entry := e)\<rparr>
               in s\<lparr>sent := sent s @ FlowExport env (heap s) e diff_bytes_v diff_pkts\<rparr>)
         else s)"






section \<open>Task policy\<close>

text \<open>\<open>TaskExclusion(task_id)\<close>: the id of the excluded task class.\<close>
datatype TaskExclusion = TaskExclusion int

type_synonym TaskPolicy = "TaskExclusion list"

text \<open>Modelled from the spec: the \<open>TaskScheduler\<close> (\<open>base/task.h\<close> is not among the
  sources). Section 3, TaskClass: a named class of work, identifier string to small
  integer id, with an associated exclusion set. \<open>id_map\<close> holds the ids given out so far
  and \<open>policy_map\<close> the policy installed for a class id.\<close>
record TaskScheduler =
  id_map :: "(string \<times> int) list"
  policy_map :: "(int \<times> TaskPolicy) list"

definition TaskScheduler_new :: TaskScheduler where
  "TaskScheduler_new = \<lparr>id_map = [], policy_map = []\<rparr>"

text \<open>Modelled from the spec: \<open>TaskScheduler::GetTaskId\<close>, the id of a class name; a name
  seen for the first time gets the next id.\<close>
definition GetTaskId :: "string \<Rightarrow> TaskScheduler \<Rightarrow> int \<times> TaskScheduler" where
  "GetTaskId nm sch =
     (case map_of (id_map sch) nm of
        Some i \<Rightarrow> (i, sch)
      | None \<Rightarrow> (let i = int (length (id_map sch))
                 in (i, sch\<lparr>id_map := id_map sch @ [(nm, i)]\<rparr>)))"

text \<open>Modelled from the spec: \<open>TaskScheduler::SetPolicy\<close>, which installs the exclusion
  list of a class.\<close>
definition SetPolicy :: "int \<Rightarrow> TaskPolicy \<Rightarrow> TaskScheduler \<Rightarrow> TaskScheduler" where
  "SetPolicy task_id policy sch =
     sch\<lparr>policy_map := AList.update task_id policy (policy_map sch)\<rparr>"

text \<open>The \<open>for\<close> loop of \<open>SetTaskPolicyOne\<close>: one \<open>GetTaskId\<close> and one \<open>push_back\<close> for
  each name of the list.\<close>
fun SetTaskPolicyOne_loop :: "string list \<Rightarrow> TaskPolicy \<Rightarrow> TaskScheduler \<Rightarrow> TaskPolicy \<times> TaskScheduler" where
  "SetTaskPolicyOne_loop [] policy sch = (policy, sch)"
| "SetTaskPolicyOne_loop (e # exclude_list) policy sch =
     (let r = GetTaskId e sch;
          task_id = fst r
      in SetTaskPolicyOne_loop exclude_list (policy @ [TaskExclusion task_id]) (snd r))"

definition SetTaskPolicyOne :: "string \<Rightarrow> string list \<Rightarrow> TaskScheduler \<Rightarrow> TaskScheduler" where
  "SetTaskPolicyOne task exclude_list sch =
     (let r = SetTaskPolicyOne_loop exclude_list [] sch;
          policy = fst r;
          t = GetTaskId task (snd r)
      in SetPolicy (fst t) policy (snd t))"

definition db_exclude_list :: "string list" where
  "db_exclude_list =
     [''Agent::FlowHandler'', ''Agent::Services'', ''Agent::StatsCollector'',
      ''sandesh::RecvQueue'', ''io::ReaderTask'', ''Agent::Uve'', ''Agent::KSync'']"

definition flow_exclude_list :: "string list" where
  "flow_exclude_list = [''Agent::StatsCollector'', ''io::ReaderTask'']"

definition sandesh_exclude_list :: "string list" where
  "sandesh_exclude_list =
     [''db::DBTable'', ''Agent::FlowHandler'', ''Agent::Services'',
      ''Agent::StatsCollector'', ''io::ReaderTask'']"

definition xmpp_config_exclude_list :: "string list" where
  "xmpp_config_exclude_list =
     [''Agent::FlowHandler'', ''Agent::Services'', ''Agent::StatsCollector'',
      ''sandesh::RecvQueue'', ''io::ReaderTask'', ''xmpp::StateMachine'', ''db::DBTable'']"

definition xmpp_state_machine_exclude_list :: "string list" where
  "xmpp_state_machine_exclude_list = [''io::ReaderTask'', ''db::DBTable'']"

definition ksync_exclude_list :: "string list" where
  "ksync_exclude_list = [''Agent::FlowHandler'', ''Agent::StatsCollector'', ''db::DBTable'']"

text \<open>\<open>Agent::SetAgentTaskPolicy\<close>, on the scheduler singleton.\<close>
definition SetAgentTaskPolicy :: "TaskScheduler \<Rightarrow> TaskScheduler" where
  "SetAgentTaskPolicy sch =
     (let sch = SetTaskPolicyOne ''db::DBTable'' db_exclude_list sch;
          sch = SetTaskPolicyOne ''Agent::FlowHandler'' flow_exclude_list sch;
          sch = SetTaskPolicyOne ''sandesh::RecvQueue'' sandesh_exclude_list sch;
          sch = SetTaskPolicyOne ''bgp::Config'' xmpp_config_exclude_list sch;
          sch = SetTaskPolicyOne ''xmpp::StateMachine'' xmpp_state_machine_exclude_list sch
      in SetTaskPolicyOne ''Agent::KSync'' ksync_exclude_list sch)"

text \<open>Reading a scheduler back by names: the class name an id was given out for, and
  for every installed policy the class with its excluded classes.\<close>
definition task_name :: "TaskScheduler \<Rightarrow> int \<Rightarrow> string option" where
  "task_name sch i = map_of (map (\<lambda>p. (snd p, fst p)) (id_map sch)) i"

fun exclusion_name :: "TaskScheduler \<Rightarrow> TaskExclusion \<Rightarrow> string option" where
  "exclusion_name sch (TaskExclusion i) = task_name sch i"

definition installed_policies :: "TaskScheduler \<Rightarrow> (string option \<times> string option list) list" where
  "installed_policies sch =
     map (\<lambda>p. (task_name sch (fst p), map (exclusion_name sch) (snd p))) (policy_map sch)"

text \<open>A scheduler in which no two class names share an id, and the ids given out are
  the numbers below the count of names, so that the next id is new.\<close>
definition sched_wf :: "TaskScheduler \<Rightarrow> bool" where
  "sched_wf sch =
     (distinct (map fst (id_map sch)) \<and> distinct (map snd (id_map sch)) \<and>
      (\<forall>p \<in> set (id_map sch). 0 \<le> snd p \<and> snd p < int (length (id_map sch))))"

text \<open>The policy installed for a class name, read back as class names.\<close>
definition policy_of :: "TaskScheduler \<Rightarrow> string \<Rightarrow> string option list option" where
  "policy_of sch nm =
     (case map_of (id_map sch) nm of
        None \<Rightarrow> None
      | Some i \<Rightarrow> map_option (map (exclusion_name sch)) (map_of (policy_map sch) i))"

text \<open>A later scheduler: it is well-formed and knows every id of the earlier one.\<close>
definition sched_ext :: "TaskScheduler \<Rightarrow> TaskScheduler \<Rightarrow> bool" where
  "sched_ext sch sch' =
     (sched_wf sch' \<and>
      (\<forall>m j. map_of (id_map sch) m = Some j \<longrightarrow> map_of (id_map sch') m = Some j))"

text \<open>A policy that lists the ids of the given names, in their order.\<close>
definition names_ids :: "TaskScheduler \<Rightarrow> string list \<Rightarrow> TaskPolicy \<Rightarrow> bool" where
  "names_ids sch names pol =
     list_all2 (\<lambda>n e. \<exists>i. e = TaskExclusion i \<and> map_of (id_map sch) n = Some i) names pol"

definition has_policy :: "TaskScheduler \<Rightarrow> string \<Rightarrow> string list \<Rightarrow> bool" where
  "has_policy sch task names =
     (\<exists>i pol. map_of (id_map sch) task = Some i \<and> map_of (policy_map sch) i = Some pol \<and>
              names_ids sch names pol)"

text \<open>The six calls of \<open>SetTaskPolicyOne\<close> in \<open>SetAgentTaskPolicy\<close>, as a list.\<close>
definition agent_task_policy :: "(string \<times> string list) list" where
  "agent_task_policy =
     [(''db::DBTable'', db_exclude_list), (''Agent::FlowHandler'', flow_exclude_list),
      (''sandesh::RecvQueue'', sandesh_exclude_list), (''bgp::Config'', xmpp_config_exclude_list),
      (''xmpp::StateMachine'', xmpp_state_machine_exclude_list),
      (''Agent::KSync'', ksync_exclude_list)]"

section \<open>VRF entries and their table\<close>

datatype AgentRouteTableAPIS = INET4_UNICAST | INET4_MULTICAST | LAYER2


text \<open>Modelled from the spec: the \<open>Timer\<close> of \<open>base/timer.h\<close> (not among the sources), as
  far as the delete timer of section 4.3 needs it: a timer is started with a timeout and
  a handler, fires at most once while it is running, and does not fire once cancelled.
  The handler of the one timer below is \<open>VrfEntry::DeleteTimeout\<close>.\<close>
record Timer =
  timer_name :: string
  timeout :: nat
  running :: bool

text \<open>What is written to the logs: \<open>VRF_OBJECT_LOG_LOG\<close> with event string, VRF name and
  index, and \<open>OPER_TRACE\<close> with message and VRF name.\<close>
datatype log_line = VrfObjectLog string string int | OperTrace string string

text \<open>
  \<open>VrfEntry\<close>, with what it inherits: \<open>IsDeleted\<close> and \<open>RefCount\<close> from the table entry,
  \<open>deleter_pending\<close> for the state of its \<open>DeleteActor\<close>, and \<open>rt_table_db\<close> as the sizes of its route tables.
\<close>
record VrfEntry =
  vrf_name :: string
  vrf_id :: int
  IsDeleted :: bool
  RefCount :: nat
  deleter_pending :: bool
  rt_table_db :: "AgentRouteTableAPIS \<Rightarrow> nat"
  delete_timeout_timer :: "Timer option"

text \<open>\<open>VrfEntry::DeleteActor::MayDelete\<close>.\<close>
definition MayDelete :: "VrfEntry \<Rightarrow> bool" where
  "MayDelete vrf = True"

text \<open>Modelled from the spec: the retirement test of the lifetime manager
  (\<open>base/lifetime.h\<close> is not among the sources). Section 3, Entry: on DELETE the entry
  becomes eligible for retirement when its reference count reaches zero and its
  DeleteActor reports \<open>MayDelete()\<close>.\<close>
definition retirement_eligible :: "VrfEntry \<Rightarrow> bool" where
  "retirement_eligible vrf = (deleter_pending vrf \<and> RefCount vrf = 0 \<and> MayDelete vrf)"

text \<open>
  The VRF table: \<open>partition_map\<close> is the map from key to entry of the table's partition
  (\<open>partition\<close> in the source, the name of a list function in HOL), which keeps deleted
  entries until they retire; \<open>name_tree\<close> and \<open>dbtree\<close> are the name based trees of the
  table, \<open>db_tables\<close> the route tables registered in the database; \<open>trace\<close> is the log.
\<close>
record VrfTable =
  partition_map :: "string \<rightharpoonup> VrfEntry"
  name_tree :: "string set"
  dbtree :: "AgentRouteTableAPIS \<Rightarrow> string set"
  db_tables :: "(string \<times> AgentRouteTableAPIS) set"
  trace :: "log_line list"












datatype DBRequest_oper = DB_ENTRY_ADD_CHANGE | DB_ENTRY_DELETE

text \<open>A \<open>DBRequest\<close> for the VRF table: the operation and the \<open>VrfKey\<close>; \<open>VrfData\<close> has no
  fields that the table reads.\<close>
record DBRequest =
  oper :: DBRequest_oper
  req_key :: string

text \<open>\<open>VrfTable::Input\<close>; \<open>AgentDBTable_Input\<close> stands for the base class's \<open>Input\<close>, which
  is outside the sources.\<close>
definition VrfTable_Input :: "(VrfTable \<Rightarrow> DBRequest \<Rightarrow> VrfTable) \<Rightarrow> VrfTable \<Rightarrow> DBRequest \<Rightarrow> VrfTable" where
  "VrfTable_Input AgentDBTable_Input tbl req =
     (let entry = partition_map tbl (req_key req)
      in if entry \<noteq> None \<and> IsDeleted (the entry)
         then tbl\<lparr>trace := trace tbl @
                    [OperTrace ''VRF pending delete, Ignoring DB operation for ''
                               (vrf_name (the entry))]\<rparr>
         else AgentDBTable_Input tbl req)"

text \<open>\<open>VrfTable::CanNotify\<close> for a configuration node of the given name: the answer and
  the table with its log.\<close>
definition CanNotify :: "VrfTable \<Rightarrow> string \<Rightarrow> bool \<times> VrfTable" where
  "CanNotify tbl node_name =
     (let entry = partition_map tbl node_name
      in if entry \<noteq> None \<and> IsDeleted (the entry)
         then (False, tbl\<lparr>trace := trace tbl @
                            [OperTrace ''VRF pending delete, Ignoring config for '' node_name]\<rparr>)
         else (True, tbl))"


section \<open>Flows in the table, and pairs of flows\<close>







section \<open>Example states\<close>

text \<open>Concrete flows, kernel records, environments and collectors, on which the
  theorems below are instantiated.\<close>

definition ex_key :: "u32 \<Rightarrow> u32 \<Rightarrow> FlowKey" where
  "ex_key s d = \<lparr>src_ipv4 = s, dst_ipv4 = d, protocol = 6, src_port = 1000, dst_port = 80\<rparr>"

definition ex_flow :: "FlowKey \<Rightarrow> u64 \<Rightarrow> u64 \<Rightarrow> addr option \<Rightarrow> FlowEntry" where
  "ex_flow k b p r =
     \<lparr>key = k,
      data = \<lparr>source_vn = ''vn1'', dest_vn = ''vn2'', bytes = b, packets = p,
              ingress = True, reverse_flow = r\<rparr>,
      flow_uuid = 1, egress_uuid = 2, intf_in = 0, flow_handle = 0,
      nat_flow = False, local_flow = False, short_flow = False,
      setup_time = 0, teardown_time = 0, last_modified_time = 0\<rparr>"

definition ex_kflow :: "u32 \<Rightarrow> u32 \<Rightarrow> u16 \<Rightarrow> u8 \<Rightarrow> vr_flow_entry" where
  "ex_kflow b p ob op =
     \<lparr>fe_stats = \<lparr>flow_bytes = b, flow_packets = p, flow_bytes_oflow = ob,
                   flow_packets_oflow = op\<rparr>\<rparr>"

definition ex_env :: "(u32 \<Rightarrow> vr_flow_entry option) \<Rightarrow> u64 \<Rightarrow> collector_env" where
  "ex_env kt age =
     \<lparr>GetKernelFlowEntry = kt, GetFlowAgeTime = age,
      to_string = (\<lambda>u. if u = 1 then ''uuid-1'' else ''uuid-2''),
      kInvalidIndex = - 1, FindVmCfgName = (\<lambda>i. None),
      key_less = (\<lambda>a b. src_ipv4 a < src_ipv4 b)\<rparr>"

definition ex_collector :: "(addr \<Rightarrow> FlowEntry) \<Rightarrow> (FlowKey \<times> addr) list \<Rightarrow> FlowStatsCollector" where
  "ex_collector h m =
     \<lparr>heap = h, flow_entry_map = m, run_counter = 0, flow_iteration_key = FlowKey_Reset,
      flow_count_per_pass = 100, flow_multiplier = 8, flow_default_interval = 1000,
      expiry_time = 1000, sent = [], vn_stats = []\<rparr>"

text \<open>Scenario 4 of the specification: flow A from 10.0.0.1, NAT-ed, whose reverse flow
  B has destination 192.168.1.1. A lives at address 1 and B at address 2.\<close>
definition ex_nat_flow :: FlowEntry where
  "ex_nat_flow = (ex_flow (ex_key 0x0A000001 0x0A000002) 0 0 (Some 2))\<lparr>nat_flow := True\<rparr>"

definition ex_nat_heap :: "addr \<Rightarrow> FlowEntry" where
  "ex_nat_heap a =
     (if a = 2 then ex_flow (ex_key 0x0A000002 0xC0A80101) 0 0 (Some 1) else ex_nat_flow)"





text \<open>A VRF with routes in two of its tables and two references, and a table that
  holds it.\<close>
definition ex_vrf :: VrfEntry where
  "ex_vrf =
     \<lparr>vrf_name = ''vrf-a'', vrf_id = 1, IsDeleted = False, RefCount = 2,
      deleter_pending = False,
      rt_table_db = (\<lambda>t. case t of INET4_UNICAST \<Rightarrow> 12 | INET4_MULTICAST \<Rightarrow> 0 | LAYER2 \<Rightarrow> 3),
      delete_timeout_timer = None\<rparr>"

definition ex_vrf_table :: "VrfEntry \<Rightarrow> VrfTable" where
  "ex_vrf_table vrf =
     \<lparr>partition_map = [''vrf-a'' \<mapsto> vrf], name_tree = {''vrf-a''},
      dbtree = (\<lambda>t. {''vrf-a''}), db_tables = {''vrf-a''} \<times> UNIV, trace = []\<rparr>"

text \<open>A base class \<open>Input\<close> that would drop every entry of the table, to see that it is
  not called.\<close>
definition ex_base_input :: "VrfTable \<Rightarrow> DBRequest \<Rightarrow> VrfTable" where
  "ex_base_input tbl req = tbl\<lparr>partition_map := Map.empty\<rparr>"

text \<open>The source address an export record carries according to the specification
  (section 4.5, source-IP override): the destination address of the reverse flow's key
  for a NAT-ed flow whose reverse flow has another destination than the flow's source,
  and the flow's own source address otherwise.\<close>
definition spec_sourceip :: "(addr \<Rightarrow> FlowEntry) \<Rightarrow> FlowEntry \<Rightarrow> u32" where
  "spec_sourceip h flow =
     (case reverse_flow (data flow) of
        Some r \<Rightarrow> if nat_flow flow \<and> dst_ipv4 (key (h r)) \<noteq> src_ipv4 (key flow)
                  then dst_ipv4 (key (h r)) else src_ipv4 (key flow)
      | None \<Rightarrow> src_ipv4 (key flow))"

section \<open>Words: masks, shifts and their values\<close>

lemma low_mask: "x AND mask n = take_bit n (x::u64)"
  by (simp add: take_bit_eq_mask)

lemma high_mask: "NOT (mask n) AND (x::u64) = push_bit n (drop_bit n x)"
  by (rule bit_word_eqI) (auto simp: bit_simps)

lemma or_low:
  fixes a k :: u64
  assumes "k < 2 ^ n"
  shows "push_bit n a OR k = push_bit n a + k"
proof -
  have k: "take_bit n k = k" using assms by (simp add: less_mask_eq take_bit_eq_mask)
  have "push_bit n a AND take_bit n k = 0"
    by (rule bit_word_eqI) (auto simp: bit_simps)
  then show ?thesis by (simp add: k disjunctive_add_eq_or)
qed

lemma nat_shift:
  assumes "n \<le> 64"
  shows "(x * 2 ^ n) mod 2 ^ 64 = (x mod 2 ^ (64 - n)) * (2 ^ n :: nat)"
proof -
  have "(x mod 2 ^ (64 - n)) * (2 ^ n :: nat) = (x * 2 ^ n) mod (2 ^ (64 - n) * 2 ^ n)"
    by (rule mult_mod_left)
  also have "(2 ^ (64 - n) * 2 ^ n :: nat) = 2 ^ 64"
    using assms by (simp add: power_add [symmetric])
  finally show ?thesis by simp
qed

lemma unat_lt_exp:
  fixes k :: u64
  assumes "k < 2 ^ n" "n < 64"
  shows "unat k < 2 ^ n"
proof -
  have "(2 ^ n :: nat) < 2 ^ 64" by (rule power_strict_increasing) (use assms(2) in simp_all)
  then have "unat (of_nat (2 ^ n) :: u64) = 2 ^ n" by (simp add: unat_of_nat del: of_nat_power)
  then have "unat (2 ^ n :: u64) = 2 ^ n" by simp
  then show ?thesis using assms(1) by (simp add: word_less_nat_alt)
qed

lemma unat_push:
  fixes a k :: u64
  assumes "k < 2 ^ n" "n < 64"
  shows "unat (push_bit n a + k) = (unat a mod 2 ^ (64 - n)) * 2 ^ n + unat k"
proof -
  have kb: "unat k < 2 ^ n" using assms by (rule unat_lt_exp)
  have "unat (push_bit n a) = (unat a * 2 ^ n) mod 2 ^ 64"
    unfolding unsigned_push_bit_eq by (simp add: take_bit_eq_mod push_bit_eq_mult)
  then have p: "unat (push_bit n a) = (unat a mod 2 ^ (64 - n)) * 2 ^ n"
    using nat_shift [of n "unat a"] assms(2) by simp
  have "unat a mod 2 ^ (64 - n) < 2 ^ (64 - n)" by simp
  then have "unat a mod 2 ^ (64 - n) + 1 \<le> 2 ^ (64 - n)"
    by (simp only: Suc_eq_plus1 [symmetric] Suc_le_eq)
  then have "(unat a mod 2 ^ (64 - n) + 1) * 2 ^ n \<le> 2 ^ (64 - n) * (2 ^ n :: nat)"
    by (rule mult_le_mono1)
  also have "(2 ^ (64 - n) * 2 ^ n :: nat) = 2 ^ 64"
    using assms by (simp add: power_add [symmetric])
  finally have "(unat a mod 2 ^ (64 - n)) * 2 ^ n + 2 ^ n \<le> (2 ^ 64 :: nat)"
    by (simp add: algebra_simps)
  with kb have "unat (push_bit n a) + unat k < 2 ^ 64"
    by (simp add: p)
  then have "unat (push_bit n a + k) = unat (push_bit n a) + unat k"
    by (simp add: unat_add_lem [THEN iffD1])
  then show ?thesis by (simp only: p)
qed

lemma bytes_masks:
  "(0xffff000000000000 :: u64) = NOT (mask 48)" "(0x0000ffffffffffff :: u64) = mask 48"
  "(0x0001000000000000 :: u64) = push_bit 48 1"
  by (simp_all add: mask_eq_exp_minus_1 not_eq_complement)

lemma packets_masks:
  "(0xffffff0000000000 :: u64) = NOT (mask 40)" "(0x000000ffffffffff :: u64) = mask 40"
  "(0x0000010000000000 :: u64) = push_bit 40 1"
  by (simp_all add: mask_eq_exp_minus_1 not_eq_complement)

lemma ucast_ucast_8_16_64: "(ucast (ucast (x :: u8) :: u16) :: u64) = ucast x"
  by (rule bit_word_eqI) (auto simp: bit_simps dest: bit_imp_le_length)

text \<open>Keeping the bits from \<open>n\<close> upwards, adding a carry when the low bits exceed
  \<open>k\<close>, and putting \<open>k\<close> into the low bits does not decrease a 64-bit value, unless the
  carry leaves the 64 bits.\<close>
lemma updated_mono:
  fixes b k :: u64
  assumes n: "n < 64" and k: "k < 2 ^ n"
    and ok: "k < take_bit n b \<Longrightarrow> unat (drop_bit n b) + 1 < 2 ^ (64 - n)"
  shows "b \<le> push_bit n (drop_bit n b + (if k < take_bit n b then 1 else 0)) OR k"
proof -
  let ?H = "unat (drop_bit n b)" and ?L = "unat (take_bit n b)"
  have b: "unat b = ?H * 2 ^ n + ?L"
    unfolding unat_drop_bit_eq unsigned_take_bit_eq
    by (simp add: drop_bit_eq_div take_bit_eq_mod div_mult_mod_eq)
  have H: "?H < 2 ^ (64 - n)"
  proof -
    have "unat b < 2 ^ 64" using unsigned_less [of b] by simp
    also have "(2 ^ 64 :: nat) = 2 ^ (64 - n) * 2 ^ n" using n by (simp add: power_add [symmetric])
    finally show ?thesis unfolding unat_drop_bit_eq
      by (simp add: drop_bit_eq_div less_mult_imp_div_less)
  qed
  have L: "?L < 2 ^ n" unfolding unsigned_take_bit_eq by (simp add: take_bit_eq_mod)
  show ?thesis
  proof (cases "k < take_bit n b")
    case False
    then have "?L \<le> unat k" by (simp add: word_le_nat_alt not_less)
    moreover have "unat (push_bit n (drop_bit n b) + k) = ?H * 2 ^ n + unat k"
      using unat_push [OF k n, of "drop_bit n b"] H by simp
    ultimately show ?thesis using False b
      by (simp add: or_low [OF k] word_le_nat_alt)
  next
    case True
    then have H1: "?H + 1 < 2 ^ (64 - n)" by (rule ok)
    have "(2 ^ (64 - n) :: nat) \<le> 2 ^ 64" by (rule power_increasing) simp_all
    with H1 have "?H + unat (1 :: u64) < 2 ^ LENGTH(64)" by simp
    then have "unat (drop_bit n b + 1) = ?H + 1"
      by (simp only: unat_add_lem [THEN iffD1] unat_1)
    then have "unat (push_bit n (drop_bit n b + 1) + k) = (?H + 1) * 2 ^ n + unat k"
      using unat_push [OF k n, of "drop_bit n b + 1"] H1 by simp
    then show ?thesis using True b L
      by (simp add: or_low [OF k] word_le_nat_alt)
  qed
qed

section \<open>Composition of the kernel counters\<close>

lemma GetFlowStats_or:
  "GetFlowStats oflow_data d = push_bit 32 (ucast oflow_data) OR ucast d"
  by (simp add: GetFlowStats_def)

lemma unat_GetFlowStats:
  "unat (GetFlowStats oflow_data d) = unat oflow_data * 2 ^ 32 + unat d"
proof -
  have d: "unat (ucast d :: u64) = unat d"
    by (simp add: unsigned_ucast_eq take_bit_nat_eq_self less_trans [OF unsigned_less])
  have "unat d < 2 ^ LENGTH(32)" by (rule unsigned_less)
  then have "unat (ucast d :: u64) < 2 ^ 32" by (simp add: d)
  then have dl: "(ucast d :: u64) < 2 ^ 32" by (simp add: word_less_nat_alt)
  have o: "unat (ucast oflow_data :: u64) = unat oflow_data"
    by (simp add: unsigned_ucast_eq take_bit_nat_eq_self less_trans [OF unsigned_less])
  have "unat oflow_data < 2 ^ LENGTH(16)" by (rule unsigned_less)
  then have "unat oflow_data < 2 ^ 32" by simp
  then show ?thesis
    using unat_push [OF dl, of "ucast oflow_data"]
    by (simp add: GetFlowStats_or or_low [OF dl] o d)
qed

lemma GetFlowStats_bytes_bound: "GetFlowStats oflow_data d < 2 ^ 48"
proof -
  have "unat oflow_data < 2 ^ LENGTH(16)" by (rule unsigned_less)
  moreover have "unat d < 2 ^ LENGTH(32)" by (rule unsigned_less)
  ultimately have "unat (GetFlowStats oflow_data d) < 2 ^ 48"
    by (simp add: unat_GetFlowStats)
  then show ?thesis by (simp add: word_less_nat_alt)
qed

lemma GetFlowStats_packets_bound: "GetFlowStats (ucast (op :: u8)) d < 2 ^ 40"
proof -
  have "unat op < 2 ^ LENGTH(8)" by (rule unsigned_less)
  then have "unat (ucast op :: u16) < 2 ^ 8"
    by (simp add: unsigned_ucast_eq take_bit_nat_eq_self)
  moreover have "unat d < 2 ^ LENGTH(32)" by (rule unsigned_less)
  ultimately have "unat (GetFlowStats (ucast op) d) < 2 ^ 40"
    by (simp add: unat_GetFlowStats)
  then show ?thesis by (simp add: word_less_nat_alt)
qed

lemma Run_stats_heap:
  assumes "bytes (data (heap s entry)) \<noteq> ucast (flow_bytes (fe_stats k_flow))"
  shows "heap (Run_stats env curr_time entry k_flow s) entry =
           (heap s entry)
             \<lparr>data := (data (heap s entry))
                \<lparr>bytes := GetUpdatedFlowBytes (heap s entry)
                    (GetFlowStats (flow_bytes_oflow (fe_stats k_flow)) (flow_bytes (fe_stats k_flow))),
                 packets := GetUpdatedFlowPackets (heap s entry)
                    (GetFlowStats (ucast (flow_packets_oflow (fe_stats k_flow)))
                                  (flow_packets (fe_stats k_flow)))\<rparr>,
              last_modified_time := curr_time\<rparr>"
  using assms by (simp add: Run_stats_def Let_def)

lemma Run_stats_unchanged:
  assumes "bytes (data (heap s entry)) = ucast (flow_bytes (fe_stats k_flow))"
  shows "Run_stats env curr_time entry k_flow s = s"
  using assms by (simp add: Run_stats_def Let_def)

text \<open>
  Claim C1, as amended. When the aging pass reconciles the counters of an entry with a
  kernel record whose byte count differs from the stored one, the stored counters become
  \<open>GetUpdatedFlowBytes\<close> and \<open>GetUpdatedFlowPackets\<close> of the composed kernel values, and
  both kernel values are composed with a shift of the overflow counter by 32 bits:
  \<open>(flow_bytes_oflow << 32) | flow_bytes\<close> and \<open>(flow_packets_oflow << 32) | flow_packets\<close>.
  The value of a composed counter is \<open>oflow * 2^32 + low\<close>.
\<close>
theorem Run_stats_kernel_counters:
  assumes "bytes (data (heap s entry)) \<noteq> ucast (flow_bytes (fe_stats k_flow))"
  shows "bytes (data (heap (Run_stats env curr_time entry k_flow s) entry)) =
           GetUpdatedFlowBytes (heap s entry)
             (push_bit 32 (ucast (flow_bytes_oflow (fe_stats k_flow)))
                OR ucast (flow_bytes (fe_stats k_flow))) \<and>
         packets (data (heap (Run_stats env curr_time entry k_flow s) entry)) =
           GetUpdatedFlowPackets (heap s entry)
             (push_bit 32 (ucast (flow_packets_oflow (fe_stats k_flow)))
                OR ucast (flow_packets (fe_stats k_flow))) \<and>
         unat (GetFlowStats (flow_bytes_oflow (fe_stats k_flow)) (flow_bytes (fe_stats k_flow))) =
           unat (flow_bytes_oflow (fe_stats k_flow)) * 2 ^ 32 + unat (flow_bytes (fe_stats k_flow))"
  by (simp add: Run_stats_heap [OF assms] GetFlowStats_or [symmetric] unat_GetFlowStats)
     (simp add: GetFlowStats_or ucast_ucast_8_16_64)

text \<open>The theorem at a kernel record with byte overflow 3 and packet overflow 1.\<close>
theorem Run_stats_kernel_counters_witness:
  "bytes (data (heap (ex_collector (\<lambda>a. ex_flow (ex_key 1 2) 1 0 None) []) 1))
     \<noteq> ucast (flow_bytes (fe_stats (ex_kflow 0 7 3 1))) \<and>
   bytes (data (heap (Run_stats (ex_env (\<lambda>h. None) 0) 0 1 (ex_kflow 0 7 3 1)
                        (ex_collector (\<lambda>a. ex_flow (ex_key 1 2) 1 0 None) [])) 1))
     = 0x300000000 \<and>
   packets (data (heap (Run_stats (ex_env (\<lambda>h. None) 0) 0 1 (ex_kflow 0 7 3 1)
                          (ex_collector (\<lambda>a. ex_flow (ex_key 1 2) 1 0 None) [])) 1))
     = 0x100000007"
proof -
  have h: "bytes (data (heap (ex_collector (\<lambda>a. ex_flow (ex_key 1 2) 1 0 None) []) 1))
             \<noteq> ucast (flow_bytes (fe_stats (ex_kflow 0 7 3 1)))"
    by (simp add: ex_collector_def ex_flow_def ex_kflow_def)
  show ?thesis
    using h Run_stats_kernel_counters [OF h, of "ex_env (\<lambda>h. None) 0" 0]
    by (simp add: ex_collector_def ex_flow_def ex_kflow_def
        GetUpdatedFlowBytes_def GetUpdatedFlowPackets_def)
qed

text \<open>Claim C1 as stated, refuted: with packet overflow 1 and no packets the stored
  packet counter does not become what a shift by 40 bits would give.\<close>
theorem kernel_pkts_shift_40_counterexample:
  "packets (data (heap (Run_stats (ex_env (\<lambda>h. None) 0) 0 1 (ex_kflow 0 0 0 1)
                          (ex_collector (\<lambda>a. ex_flow (ex_key 1 2) 1 0 None) [])) 1))
     \<noteq> GetUpdatedFlowPackets (ex_flow (ex_key 1 2) 1 0 None)
           (push_bit 40 (ucast (flow_packets_oflow (fe_stats (ex_kflow 0 0 0 1))))
              OR ucast (flow_packets (fe_stats (ex_kflow 0 0 0 1))))"
  by (simp add: Run_stats_def Let_def ex_env_def ex_kflow_def ex_collector_def ex_flow_def
      GetFlowStats_def GetUpdatedFlowPackets_def GetUpdatedFlowBytes_def)

section \<open>The aging test\<close>

text \<open>
  Claim C2, as amended. \<open>ShouldBeAged\<close> answers no when the kernel record exists and both
  32-bit kernel counters, bytes and packets, are strictly greater than the stored
  counters of the entry; in every other case it answers yes exactly when the time since
  the last modification, computed modulo \<open>2^64\<close>, is at least the age time.
\<close>
theorem ShouldBeAged_iff:
  "ShouldBeAged env entry k_flow curr_time =
     (case k_flow of
        Some k \<Rightarrow>
          \<not> (bytes (data entry) < ucast (flow_bytes (fe_stats k)) \<and>
             packets (data entry) < ucast (flow_packets (fe_stats k))) \<and>
          GetFlowAgeTime env \<le> curr_time - last_modified_time entry
      | None \<Rightarrow> GetFlowAgeTime env \<le> curr_time - last_modified_time entry)"
  by (auto simp: ShouldBeAged_def Let_def not_less split: option.split)

text \<open>Claim C2 as stated, refuted: the kernel's bytes and packets (5 and 5) are below the
  stored counters (10 and 10), and the flow is aged all the same.\<close>
theorem ShouldBeAged_regressed_counterexample:
  "(ucast (flow_bytes (fe_stats (ex_kflow 5 5 0 0))) < bytes (data (ex_flow (ex_key 1 2) 10 10 None)) \<or>
    ucast (flow_packets (fe_stats (ex_kflow 5 5 0 0))) < packets (data (ex_flow (ex_key 1 2) 10 10 None))) \<and>
   ShouldBeAged (ex_env (\<lambda>h. Some (ex_kflow 5 5 0 0)) 50) (ex_flow (ex_key 1 2) 10 10 None)
     (Some (ex_kflow 5 5 0 0)) 100"
  by (simp add: ShouldBeAged_def Let_def ex_env_def ex_kflow_def ex_flow_def)

section \<open>Wrap-around of the stored counters\<close>

lemma GetUpdatedFlowBytes_bits:
  "GetUpdatedFlowBytes fe k =
     push_bit 48 (drop_bit 48 (bytes (data fe)) +
                  (if k < take_bit 48 (bytes (data fe)) then 1 else 0)) OR k"
  unfolding GetUpdatedFlowBytes_def Let_def bytes_masks high_mask
  by (simp add: low_mask and.commute push_bit_add)

lemma GetUpdatedFlowPackets_bits:
  "GetUpdatedFlowPackets fe k =
     push_bit 40 (drop_bit 40 (packets (data fe)) +
                  (if k < take_bit 40 (packets (data fe)) then 1 else 0)) OR k"
  unfolding GetUpdatedFlowPackets_def Let_def packets_masks high_mask
  by (simp add: low_mask and.commute push_bit_add)

text \<open>
  Claim C3. \<open>GetUpdatedFlowBytes\<close> keeps the 16 bits above bit 48 of the stored byte
  counter, \<open>GetUpdatedFlowPackets\<close> the 24 bits above bit 40 of the stored packet counter;
  when the stored low bits exceed the composed kernel value the kept bits are incremented
  by one, and the kernel value is OR-ed in. Stored bytes \<open>0x0000ffffffffff00\<close> with kernel
  value \<open>0x10\<close> give \<open>0x0001000000000010\<close>.
\<close>
theorem GetUpdatedFlow_carry:
  "GetUpdatedFlowBytes fe k =
     push_bit 48 (drop_bit 48 (bytes (data fe)) +
                  (if k < take_bit 48 (bytes (data fe)) then 1 else 0)) OR k \<and>
   GetUpdatedFlowPackets fe k' =
     push_bit 40 (drop_bit 40 (packets (data fe)) +
                  (if k' < take_bit 40 (packets (data fe)) then 1 else 0)) OR k' \<and>
   GetUpdatedFlowBytes (fe\<lparr>data := (data fe)\<lparr>bytes := 0x0000ffffffffff00\<rparr>\<rparr>) 0x10
     = 0x0001000000000010"
  by (simp add: GetUpdatedFlowBytes_bits [symmetric] GetUpdatedFlowPackets_bits [symmetric])
     (simp add: GetUpdatedFlowBytes_def)

lemma GetUpdatedFlowBytes_mono:
  assumes "k < 2 ^ 48"
    and "bytes (data fe) < 0xffff000000000000 \<or> take_bit 48 (bytes (data fe)) \<le> k"
  shows "bytes (data fe) \<le> GetUpdatedFlowBytes fe k"
proof -
  have "unat (drop_bit 48 (bytes (data fe))) + 1 < 2 ^ (64 - 48)"
    if "k < take_bit 48 (bytes (data fe))"
  proof -
    have "bytes (data fe) < 0xffff000000000000" using that assms(2) by auto
    then have "unat (bytes (data fe)) < 0xffff000000000000"
      by (simp add: word_less_nat_alt)
    then have "unat (bytes (data fe)) div 2 ^ 48 < 0xffff"
      by (simp add: less_mult_imp_div_less)
    then show ?thesis unfolding unat_drop_bit_eq by (simp add: drop_bit_eq_div)
  qed
  then show ?thesis
    unfolding GetUpdatedFlowBytes_bits
    by (intro updated_mono assms(1)) simp_all
qed

lemma GetUpdatedFlowPackets_mono:
  assumes "k < 2 ^ 40"
    and "packets (data fe) < 0xffffff0000000000 \<or> take_bit 40 (packets (data fe)) \<le> k"
  shows "packets (data fe) \<le> GetUpdatedFlowPackets fe k"
proof -
  have "unat (drop_bit 40 (packets (data fe))) + 1 < 2 ^ (64 - 40)"
    if "k < take_bit 40 (packets (data fe))"
  proof -
    have "packets (data fe) < 0xffffff0000000000" using that assms(2) by auto
    then have "unat (packets (data fe)) < 0xffffff0000000000"
      by (simp add: word_less_nat_alt)
    then have "unat (packets (data fe)) div 2 ^ 40 < 0xffffff"
      by (simp add: less_mult_imp_div_less)
    then show ?thesis unfolding unat_drop_bit_eq by (simp add: drop_bit_eq_div)
  qed
  then show ?thesis
    unfolding GetUpdatedFlowPackets_bits
    by (intro updated_mono assms(1)) simp_all
qed

text \<open>
  Claim C4, as amended. A reconciliation of the aging pass leaves the stored byte and
  packet counters of the entry at least as large as they were, for every kernel record,
  unless a carry is due while the held high bits are all set. That is: the stored bytes
  are below \<open>0xffff000000000000\<close> or their low 48 bits do not exceed the composed kernel
  bytes, and the stored packets are below \<open>0xffffff0000000000\<close> or their low 40 bits do
  not exceed the composed kernel packets.
\<close>
theorem Run_stats_counters_monotone:
  assumes "bytes (data (heap s entry)) < 0xffff000000000000 \<or>
           take_bit 48 (bytes (data (heap s entry)))
             \<le> GetFlowStats (flow_bytes_oflow (fe_stats k_flow)) (flow_bytes (fe_stats k_flow))"
    and "packets (data (heap s entry)) < 0xffffff0000000000 \<or>
         take_bit 40 (packets (data (heap s entry)))
           \<le> GetFlowStats (ucast (flow_packets_oflow (fe_stats k_flow)))
                           (flow_packets (fe_stats k_flow))"
  shows "bytes (data (heap s entry))
           \<le> bytes (data (heap (Run_stats env curr_time entry k_flow s) entry)) \<and>
         packets (data (heap s entry))
           \<le> packets (data (heap (Run_stats env curr_time entry k_flow s) entry))"
proof (cases "bytes (data (heap s entry)) = ucast (flow_bytes (fe_stats k_flow))")
  case True
  then show ?thesis by (simp add: Run_stats_unchanged)
next
  case False
  show ?thesis
    using GetUpdatedFlowBytes_mono [OF GetFlowStats_bytes_bound assms(1)]
      GetUpdatedFlowPackets_mono [OF GetFlowStats_packets_bound assms(2)]
    by (simp add: Run_stats_heap [OF False])
qed

text \<open>The theorem where the kernel's 48-bit byte counter has started again: stored
  bytes \<open>0x0000ffffffffff00\<close>, kernel bytes \<open>0x10\<close>.\<close>
theorem Run_stats_counters_monotone_witness:
  "bytes (data (heap (ex_collector (\<lambda>a. ex_flow (ex_key 1 2) 0x0000ffffffffff00 9 None) []) 1))
     < 0xffff000000000000 \<and>
   packets (data (heap (ex_collector (\<lambda>a. ex_flow (ex_key 1 2) 0x0000ffffffffff00 9 None) []) 1))
     < 0xffffff0000000000 \<and>
   (0x0000ffffffffff00 :: u64)
     \<le> bytes (data (heap (Run_stats (ex_env (\<lambda>h. None) 0) 5 1 (ex_kflow 0x10 9 0 0)
                 (ex_collector (\<lambda>a. ex_flow (ex_key 1 2) 0x0000ffffffffff00 9 None) [])) 1)) \<and>
   (9 :: u64)
     \<le> packets (data (heap (Run_stats (ex_env (\<lambda>h. None) 0) 5 1 (ex_kflow 0x10 9 0 0)
                 (ex_collector (\<lambda>a. ex_flow (ex_key 1 2) 0x0000ffffffffff00 9 None) [])) 1))"
proof -
  have h1: "bytes (data (heap (ex_collector (\<lambda>a. ex_flow (ex_key 1 2) 0x0000ffffffffff00 9 None) []) 1))
              < 0xffff000000000000"
    by (simp add: ex_collector_def ex_flow_def)
  have h2: "packets (data (heap (ex_collector (\<lambda>a. ex_flow (ex_key 1 2) 0x0000ffffffffff00 9 None) []) 1))
              < 0xffffff0000000000"
    by (simp add: ex_collector_def ex_flow_def)
  show ?thesis
    using h1 h2
      Run_stats_counters_monotone [where k_flow = "ex_kflow 0x10 9 0 0"
        and env = "ex_env (\<lambda>h. None) 0" and curr_time = 5, OF disjI1 [OF h1] disjI1 [OF h2]]
    by (simp add: ex_collector_def ex_flow_def)
qed

text \<open>Claim C4 as stated, refuted: with stored bytes \<open>0xffff000000000001\<close> and a kernel
  record of zeros the carry leaves the 64 bits, and the stored bytes drop to zero.\<close>
theorem Run_stats_bytes_wrap_counterexample:
  "\<not> bytes (data (heap (ex_collector (\<lambda>a. ex_flow (ex_key 1 2) 0xffff000000000001 0 None) []) 1))
      \<le> bytes (data (heap (Run_stats (ex_env (\<lambda>h. None) 0) 0 1 (ex_kflow 0 0 0 0)
                          (ex_collector (\<lambda>a. ex_flow (ex_key 1 2) 0xffff000000000001 0 None) [])) 1))"
  by (simp add: Run_stats_def Let_def ex_env_def ex_kflow_def ex_collector_def ex_flow_def
      GetFlowStats_def GetUpdatedFlowPackets_def GetUpdatedFlowBytes_def)

section \<open>Export records\<close>

text \<open>
  Claim C6. \<open>FlowExport\<close> on a local flow sends exactly two records: the first with
  \<open>direction_ing = 1\<close>, the flow's primary UUID and the source address of the
  specification's override rule; the second with \<open>direction_ing = 0\<close> and the flow's
  egress UUID. On a flow that is not local it sends exactly one record: for an ingress
  flow with \<open>direction_ing = 1\<close> and the same source address rule, otherwise with
  \<open>direction_ing = 0\<close>.
\<close>
theorem FlowExport_records:
  "(local_flow flow \<longrightarrow>
      length (FlowExport env h flow db dp) = 2 \<and>
      direction_ing (FlowExport env h flow db dp ! 0) = 1 \<and>
      flowuuid (FlowExport env h flow db dp ! 0) = to_string env (flow_uuid flow) \<and>
      sourceip (FlowExport env h flow db dp ! 0) = spec_sourceip h flow \<and>
      direction_ing (FlowExport env h flow db dp ! 1) = 0 \<and>
      flowuuid (FlowExport env h flow db dp ! 1) = to_string env (egress_uuid flow)) \<and>
   (\<not> local_flow flow \<longrightarrow>
      length (FlowExport env h flow db dp) = 1 \<and>
      (ingress (data flow) \<longrightarrow>
         direction_ing (FlowExport env h flow db dp ! 0) = 1 \<and>
         sourceip (FlowExport env h flow db dp ! 0) = spec_sourceip h flow) \<and>
      (\<not> ingress (data flow) \<longrightarrow>
         direction_ing (FlowExport env h flow db dp ! 0) = 0))"
  by (auto simp: FlowExport_def SourceIpOverride_def Let_def spec_sourceip_def FlowDataIpv4_new_def
      split: option.splits)

text \<open>The theorem on the NAT-ed flow of scenario 4: as a local flow, as an ingress flow
  that is not local, and as an egress flow that is not local.\<close>
theorem FlowExport_records_witness:
  "local_flow (ex_nat_flow\<lparr>local_flow := True\<rparr>) \<and>
   length (FlowExport (ex_env (\<lambda>h. None) 0) ex_nat_heap (ex_nat_flow\<lparr>local_flow := True\<rparr>) 0 0) = 2 \<and>
   sourceip (FlowExport (ex_env (\<lambda>h. None) 0) ex_nat_heap (ex_nat_flow\<lparr>local_flow := True\<rparr>) 0 0 ! 0)
     = 0xC0A80101 \<and>
   flowuuid (FlowExport (ex_env (\<lambda>h. None) 0) ex_nat_heap (ex_nat_flow\<lparr>local_flow := True\<rparr>) 0 0 ! 1)
     = ''uuid-2'' \<and>
   \<not> local_flow ex_nat_flow \<and> ingress (data ex_nat_flow) \<and>
   length (FlowExport (ex_env (\<lambda>h. None) 0) ex_nat_heap ex_nat_flow 0 0) = 1 \<and>
   sourceip (FlowExport (ex_env (\<lambda>h. None) 0) ex_nat_heap ex_nat_flow 0 0 ! 0) = 0xC0A80101 \<and>
   \<not> ingress (data (ex_nat_flow\<lparr>data := (data ex_nat_flow)\<lparr>ingress := False\<rparr>\<rparr>)) \<and>
   direction_ing (FlowExport (ex_env (\<lambda>h. None) 0) ex_nat_heap
                    (ex_nat_flow\<lparr>data := (data ex_nat_flow)\<lparr>ingress := False\<rparr>\<rparr>) 0 0 ! 0) = 0"
proof -
  have l: "local_flow (ex_nat_flow\<lparr>local_flow := True\<rparr>)" by simp
  have n: "\<not> local_flow ex_nat_flow" "ingress (data ex_nat_flow)"
    "\<not> local_flow (ex_nat_flow\<lparr>data := (data ex_nat_flow)\<lparr>ingress := False\<rparr>\<rparr>)"
    "\<not> ingress (data (ex_nat_flow\<lparr>data := (data ex_nat_flow)\<lparr>ingress := False\<rparr>\<rparr>))"
    by (simp_all add: ex_nat_flow_def ex_flow_def)
  have s: "spec_sourceip ex_nat_heap (ex_nat_flow\<lparr>local_flow := True\<rparr>) = 0xC0A80101"
    "spec_sourceip ex_nat_heap ex_nat_flow = 0xC0A80101"
    by (simp_all add: spec_sourceip_def ex_nat_flow_def ex_nat_heap_def ex_flow_def ex_key_def)
  have u: "to_string (ex_env (\<lambda>h. None) 0) (egress_uuid (ex_nat_flow\<lparr>local_flow := True\<rparr>)) = ''uuid-2''"
    by (simp add: ex_env_def ex_nat_flow_def ex_flow_def)
  show ?thesis
    using l n s u
      FlowExport_records [of "ex_nat_flow\<lparr>local_flow := True\<rparr>" "ex_env (\<lambda>h. None) 0" ex_nat_heap 0 0]
      FlowExport_records [of ex_nat_flow "ex_env (\<lambda>h. None) 0" ex_nat_heap 0 0]
      FlowExport_records [of "ex_nat_flow\<lparr>data := (data ex_nat_flow)\<lparr>ingress := False\<rparr>\<rparr>"
                             "ex_env (\<lambda>h. None) 0" ex_nat_heap 0 0]
    by simp
qed

section \<open>The task policy of the agent\<close>

lemma sched_ext_refl: "sched_wf sch \<Longrightarrow> sched_ext sch sch"
  by (simp add: sched_ext_def)

lemma sched_ext_trans: "sched_ext a b \<Longrightarrow> sched_ext b c \<Longrightarrow> sched_ext a c"
  by (simp add: sched_ext_def)

lemma names_ids_ext: "names_ids sch names pol \<Longrightarrow> sched_ext sch sch' \<Longrightarrow> names_ids sch' names pol"
  unfolding names_ids_def sched_ext_def
  by (erule list_all2_mono) auto

lemma GetTaskId_ext:
  assumes "sched_wf sch"
  shows "sched_ext sch (snd (GetTaskId n sch)) \<and>
         map_of (id_map (snd (GetTaskId n sch))) n = Some (fst (GetTaskId n sch)) \<and>
         policy_map (snd (GetTaskId n sch)) = policy_map sch"
proof (cases "map_of (id_map sch) n")
  case (Some i)
  with assms show ?thesis by (simp add: GetTaskId_def sched_ext_def)
next
  case None
  then have fresh: "n \<notin> fst ` set (id_map sch)" by (simp add: map_of_eq_None_iff)
  have new: "int (length (id_map sch)) \<notin> snd ` set (id_map sch)"
    using assms by (auto simp: sched_wf_def)
  have "sched_wf (sch\<lparr>id_map := id_map sch @ [(n, int (length (id_map sch)))]\<rparr>)"
    using assms fresh new by (auto simp: sched_wf_def)
  moreover have "map_of (id_map sch @ [(n, int (length (id_map sch)))]) m = Some j"
    if "map_of (id_map sch) m = Some j" for m j
    using that by (simp add: map_add_Some_iff)
  moreover have "map_of (id_map sch @ [(n, int (length (id_map sch)))]) n = Some (int (length (id_map sch)))"
    using None by (simp add: map_add_Some_iff)
  ultimately show ?thesis using None by (simp add: GetTaskId_def sched_ext_def Let_def)
qed

lemma SetTaskPolicyOne_loop_ext:
  assumes "sched_wf sch"
  shows "sched_ext sch (snd (SetTaskPolicyOne_loop names acc sch)) \<and>
         policy_map (snd (SetTaskPolicyOne_loop names acc sch)) = policy_map sch \<and>
         (\<exists>pol. fst (SetTaskPolicyOne_loop names acc sch) = acc @ pol \<and>
                names_ids (snd (SetTaskPolicyOne_loop names acc sch)) names pol)"
  using assms
proof (induction names arbitrary: acc sch)
  case Nil
  then show ?case by (simp add: sched_ext_refl names_ids_def)
next
  case (Cons n names)
  let ?r = "GetTaskId n sch"
  let ?l = "SetTaskPolicyOne_loop names (acc @ [TaskExclusion (fst ?r)]) (snd ?r)"
  have g: "sched_ext sch (snd ?r)" "map_of (id_map (snd ?r)) n = Some (fst ?r)"
    "policy_map (snd ?r) = policy_map sch"
    using GetTaskId_ext [OF Cons.prems, of n] by simp_all
  then have wf1: "sched_wf (snd ?r)" by (simp add: sched_ext_def)
  from Cons.IH [OF wf1, of "acc @ [TaskExclusion (fst ?r)]"]
  obtain pol where l: "sched_ext (snd ?r) (snd ?l)" "policy_map (snd ?l) = policy_map (snd ?r)"
    "fst ?l = (acc @ [TaskExclusion (fst ?r)]) @ pol" "names_ids (snd ?l) names pol"
    by blast
  have "map_of (id_map (snd ?l)) n = Some (fst ?r)"
    using l(1) g(2) by (simp add: sched_ext_def)
  then have "names_ids (snd ?l) (n # names) (TaskExclusion (fst ?r) # pol)"
    using l(4) by (simp add: names_ids_def)
  moreover have "sched_ext sch (snd ?l)" using g(1) l(1) by (rule sched_ext_trans)
  ultimately show ?case using l g by (simp add: Let_def)
qed

lemma SetTaskPolicyOne_ext:
  assumes "sched_wf sch"
  shows "sched_ext sch (SetTaskPolicyOne task names sch) \<and>
         has_policy (SetTaskPolicyOne task names sch) task names \<and>
         (\<forall>i. map_of (id_map (SetTaskPolicyOne task names sch)) task \<noteq> Some i \<longrightarrow>
              map_of (policy_map (SetTaskPolicyOne task names sch)) i = map_of (policy_map sch) i)"
proof -
  let ?l = "SetTaskPolicyOne_loop names [] sch"
  let ?t = "GetTaskId task (snd ?l)"
  obtain pol where l: "sched_ext sch (snd ?l)" "policy_map (snd ?l) = policy_map sch"
    "fst ?l = pol" "names_ids (snd ?l) names pol"
    using SetTaskPolicyOne_loop_ext [OF assms, of names "[]"] by auto
  then have wf1: "sched_wf (snd ?l)" by (simp add: sched_ext_def)
  have t: "sched_ext (snd ?l) (snd ?t)" "map_of (id_map (snd ?t)) task = Some (fst ?t)"
    "policy_map (snd ?t) = policy_map (snd ?l)"
    using GetTaskId_ext [OF wf1, of task] by simp_all
  have eq: "SetTaskPolicyOne task names sch = SetPolicy (fst ?t) pol (snd ?t)"
    using l(3) by (simp add: SetTaskPolicyOne_def Let_def)
  have idm: "id_map (SetPolicy (fst ?t) pol (snd ?t)) = id_map (snd ?t)"
    by (simp add: SetPolicy_def)
  have pm: "map_of (policy_map (SetPolicy (fst ?t) pol (snd ?t))) =
              (map_of (policy_map sch))(fst ?t \<mapsto> pol)"
    by (simp add: SetPolicy_def AList.update_conv' t(3) l(2))
  have ext: "sched_ext sch (SetPolicy (fst ?t) pol (snd ?t))"
    using sched_ext_trans [OF l(1) t(1)] by (simp add: sched_ext_def sched_wf_def idm)
  have ni: "names_ids (SetPolicy (fst ?t) pol (snd ?t)) names pol"
    using names_ids_ext [OF l(4) t(1)] by (simp add: names_ids_def idm)
  show ?thesis
    unfolding eq using ext ni t(2) by (auto simp: has_policy_def idm pm)
qed

lemma sched_wf_inj:
  assumes "sched_wf sch" "map_of (id_map sch) a = Some i" "map_of (id_map sch) b = Some i"
  shows "a = b"
proof -
  have inj: "inj_on snd (set (id_map sch))" using assms(1) by (simp add: sched_wf_def distinct_map)
  have m: "(a, i) \<in> set (id_map sch)" "(b, i) \<in> set (id_map sch)"
    using assms(2,3) by (auto dest: map_of_SomeD)
  have "(a, i) = (b, i)" by (rule inj_onD [OF inj _ m]) simp
  then show ?thesis by simp
qed

lemma sched_wf_task_name:
  assumes "sched_wf sch" "map_of (id_map sch) n = Some i"
  shows "task_name sch i = Some n"
proof -
  have "distinct (map fst (map (\<lambda>p. (snd p, fst p)) (id_map sch)))"
    using assms(1) by (simp add: sched_wf_def comp_def)
  moreover have "(i, n) \<in> set (map (\<lambda>p. (snd p, fst p)) (id_map sch))"
    using map_of_SomeD [OF assms(2)] by force
  ultimately show ?thesis unfolding task_name_def by (rule map_of_is_SomeI)
qed

lemma names_ids_names:
  assumes "sched_wf sch" "names_ids sch names pol"
  shows "map (exclusion_name sch) pol = map Some names"
  using assms(2) unfolding names_ids_def
  by (induction rule: list_all2_induct) (auto simp: sched_wf_task_name [OF assms(1)])

lemma has_policy_policy_of:
  assumes "sched_wf sch" "has_policy sch task names"
  shows "policy_of sch task = Some (map Some names)"
  using assms by (auto simp: has_policy_def policy_of_def names_ids_names)

lemma has_policy_preserved:
  assumes wf: "sched_wf sch" and hp: "has_policy sch task names" and ne: "task \<noteq> task2"
  shows "has_policy (SetTaskPolicyOne task2 names2 sch) task names"
proof -
  let ?s = "SetTaskPolicyOne task2 names2 sch"
  have ext: "sched_ext sch ?s"
    and frame: "\<And>i. map_of (id_map ?s) task2 \<noteq> Some i \<Longrightarrow>
                   map_of (policy_map ?s) i = map_of (policy_map sch) i"
    using SetTaskPolicyOne_ext [OF wf, of task2 names2] by auto
  obtain i pol where i: "map_of (id_map sch) task = Some i"
    "map_of (policy_map sch) i = Some pol" "names_ids sch names pol"
    using hp by (auto simp: has_policy_def)
  have i': "map_of (id_map ?s) task = Some i" using ext i(1) by (simp add: sched_ext_def)
  have wf': "sched_wf ?s" using ext by (simp add: sched_ext_def)
  have "map_of (id_map ?s) task2 \<noteq> Some i"
    using sched_wf_inj [OF wf' i'] ne by auto
  then have "map_of (policy_map ?s) i = Some pol" using frame i(2) by simp
  moreover have "names_ids ?s names pol" using i(3) ext by (rule names_ids_ext)
  ultimately show ?thesis using i' by (auto simp: has_policy_def)
qed

lemma fold_SetTaskPolicyOne:
  assumes "sched_wf sch" "distinct (map fst ps)"
  shows "sched_ext sch (fold (\<lambda>p. SetTaskPolicyOne (fst p) (snd p)) ps sch) \<and>
         (\<forall>p \<in> set ps. has_policy (fold (\<lambda>p. SetTaskPolicyOne (fst p) (snd p)) ps sch) (fst p) (snd p)) \<and>
         (\<forall>t ns. has_policy sch t ns \<and> t \<notin> fst ` set ps \<longrightarrow>
                 has_policy (fold (\<lambda>p. SetTaskPolicyOne (fst p) (snd p)) ps sch) t ns) \<and>
         (\<forall>i. (\<forall>t \<in> fst ` set ps. map_of (id_map (fold (\<lambda>p. SetTaskPolicyOne (fst p) (snd p)) ps sch)) t \<noteq> Some i) \<longrightarrow>
              map_of (policy_map (fold (\<lambda>p. SetTaskPolicyOne (fst p) (snd p)) ps sch)) i =
              map_of (policy_map sch) i)"
  using assms
proof (induction ps arbitrary: sch)
  case Nil
  then show ?case by (simp add: sched_ext_refl)
next
  case (Cons p ps)
  let ?f = "\<lambda>p. SetTaskPolicyOne (fst p) (snd p)"
  let ?s1 = "SetTaskPolicyOne (fst p) (snd p) sch"
  let ?s' = "fold ?f ps ?s1"
  have one: "sched_ext sch ?s1" "has_policy ?s1 (fst p) (snd p)"
    and frame1: "\<And>i. map_of (id_map ?s1) (fst p) \<noteq> Some i \<Longrightarrow>
                    map_of (policy_map ?s1) i = map_of (policy_map sch) i"
    using SetTaskPolicyOne_ext [OF Cons.prems(1), of "fst p" "snd p"] by auto
  have wf1: "sched_wf ?s1" using one(1) by (simp add: sched_ext_def)
  have d: "distinct (map fst ps)" "fst p \<notin> fst ` set ps" using Cons.prems(2) by auto
  have ih: "sched_ext ?s1 ?s'"
    "\<And>q. q \<in> set ps \<Longrightarrow> has_policy ?s' (fst q) (snd q)"
    "\<And>t ns. has_policy ?s1 t ns \<Longrightarrow> t \<notin> fst ` set ps \<Longrightarrow> has_policy ?s' t ns"
    "\<And>i. (\<And>t. t \<in> fst ` set ps \<Longrightarrow> map_of (id_map ?s') t \<noteq> Some i) \<Longrightarrow>
          map_of (policy_map ?s') i = map_of (policy_map ?s1) i"
    using Cons.IH [OF wf1 d(1)] by blast+
  have a: "sched_ext sch ?s'" using one(1) ih(1) by (rule sched_ext_trans)
  have b: "has_policy ?s' (fst q) (snd q)" if "q \<in> set (p # ps)" for q
    using that ih(2) ih(3) [OF one(2) d(2)] by auto
  have c: "has_policy ?s' t ns" if "has_policy sch t ns" "t \<notin> fst ` set (p # ps)" for t ns
  proof -
    have "has_policy ?s1 t ns" using Cons.prems(1) that(1) that(2)
      by (intro has_policy_preserved) auto
    then show ?thesis using that(2) by (intro ih(3)) auto
  qed
  have e: "map_of (policy_map ?s') i = map_of (policy_map sch) i"
    if "\<And>t. t \<in> fst ` set (p # ps) \<Longrightarrow> map_of (id_map ?s') t \<noteq> Some i" for i
  proof -
    have "map_of (policy_map ?s') i = map_of (policy_map ?s1) i"
      using that by (intro ih(4)) auto
    moreover have "map_of (id_map ?s1) (fst p) \<noteq> Some i"
    proof
      assume "map_of (id_map ?s1) (fst p) = Some i"
      then have "map_of (id_map ?s') (fst p) = Some i" using ih(1) by (simp add: sched_ext_def)
      with that [of "fst p"] show False by simp
    qed
    ultimately show ?thesis using frame1 by simp
  qed
  show ?case using a b c e by (simp del: set_simps) blast
qed

lemma SetAgentTaskPolicy_fold:
  "SetAgentTaskPolicy sch = fold (\<lambda>p. SetTaskPolicyOne (fst p) (snd p)) agent_task_policy sch"
  by (simp add: SetAgentTaskPolicy_def agent_task_policy_def Let_def)

text \<open>
  Claim C7. On every well-formed scheduler \<open>Agent::SetAgentTaskPolicy\<close> installs for each
  of six classes the list of the exclusion table, and changes the policy of no other
  class: \<open>db::DBTable\<close> excludes \<open>Agent::FlowHandler\<close>, \<open>Agent::Services\<close>,
  \<open>Agent::StatsCollector\<close>, \<open>sandesh::RecvQueue\<close>, \<open>io::ReaderTask\<close>, \<open>Agent::Uve\<close> and
  \<open>Agent::KSync\<close>; \<open>Agent::FlowHandler\<close> excludes \<open>Agent::StatsCollector\<close> and
  \<open>io::ReaderTask\<close>; \<open>sandesh::RecvQueue\<close> excludes \<open>db::DBTable\<close>, \<open>Agent::FlowHandler\<close>,
  \<open>Agent::Services\<close>, \<open>Agent::StatsCollector\<close> and \<open>io::ReaderTask\<close>; \<open>bgp::Config\<close> excludes
  \<open>Agent::FlowHandler\<close>, \<open>Agent::Services\<close>, \<open>Agent::StatsCollector\<close>, \<open>sandesh::RecvQueue\<close>,
  \<open>io::ReaderTask\<close>, \<open>xmpp::StateMachine\<close> and \<open>db::DBTable\<close>; \<open>xmpp::StateMachine\<close> excludes
  \<open>io::ReaderTask\<close> and \<open>db::DBTable\<close>; \<open>Agent::KSync\<close> excludes \<open>Agent::FlowHandler\<close>,
  \<open>Agent::StatsCollector\<close> and \<open>db::DBTable\<close>.
\<close>
theorem SetAgentTaskPolicy_table:
  assumes "sched_wf sch"
  shows "policy_of (SetAgentTaskPolicy sch) ''db::DBTable'' =
           Some [Some ''Agent::FlowHandler'', Some ''Agent::Services'', Some ''Agent::StatsCollector'',
                 Some ''sandesh::RecvQueue'', Some ''io::ReaderTask'', Some ''Agent::Uve'',
                 Some ''Agent::KSync''] \<and>
         policy_of (SetAgentTaskPolicy sch) ''Agent::FlowHandler'' =
           Some [Some ''Agent::StatsCollector'', Some ''io::ReaderTask''] \<and>
         policy_of (SetAgentTaskPolicy sch) ''sandesh::RecvQueue'' =
           Some [Some ''db::DBTable'', Some ''Agent::FlowHandler'', Some ''Agent::Services'',
                 Some ''Agent::StatsCollector'', Some ''io::ReaderTask''] \<and>
         policy_of (SetAgentTaskPolicy sch) ''bgp::Config'' =
           Some [Some ''Agent::FlowHandler'', Some ''Agent::Services'', Some ''Agent::StatsCollector'',
                 Some ''sandesh::RecvQueue'', Some ''io::ReaderTask'', Some ''xmpp::StateMachine'',
                 Some ''db::DBTable''] \<and>
         policy_of (SetAgentTaskPolicy sch) ''xmpp::StateMachine'' =
           Some [Some ''io::ReaderTask'', Some ''db::DBTable''] \<and>
         policy_of (SetAgentTaskPolicy sch) ''Agent::KSync'' =
           Some [Some ''Agent::FlowHandler'', Some ''Agent::StatsCollector'', Some ''db::DBTable''] \<and>
         (\<forall>i. (\<forall>t \<in> {''db::DBTable'', ''Agent::FlowHandler'', ''sandesh::RecvQueue'',
                       ''bgp::Config'', ''xmpp::StateMachine'', ''Agent::KSync''}.
                  map_of (id_map (SetAgentTaskPolicy sch)) t \<noteq> Some i) \<longrightarrow>
              map_of (policy_map (SetAgentTaskPolicy sch)) i = map_of (policy_map sch) i)"
proof -
  let ?s' = "SetAgentTaskPolicy sch"
  have d: "distinct (map fst agent_task_policy)" by (simp add: agent_task_policy_def)
  note f = fold_SetTaskPolicyOne [OF assms d, folded SetAgentTaskPolicy_fold]
  have wf': "sched_wf ?s'" using f by (simp add: sched_ext_def)
  have hp: "has_policy ?s' (fst p) (snd p)" if "p \<in> set agent_task_policy" for p
    using f that by blast
  have po: "policy_of ?s' (fst p) = Some (map Some (snd p))" if "p \<in> set agent_task_policy" for p
    using has_policy_policy_of [OF wf' hp [OF that]] .
  have fr: "map_of (policy_map ?s') i = map_of (policy_map sch) i"
    if "\<forall>t \<in> fst ` set agent_task_policy. map_of (id_map ?s') t \<noteq> Some i" for i
    using f that by blast
  show ?thesis
    using po [of "(''db::DBTable'', db_exclude_list)"]
      po [of "(''Agent::FlowHandler'', flow_exclude_list)"]
      po [of "(''sandesh::RecvQueue'', sandesh_exclude_list)"]
      po [of "(''bgp::Config'', xmpp_config_exclude_list)"]
      po [of "(''xmpp::StateMachine'', xmpp_state_machine_exclude_list)"]
      po [of "(''Agent::KSync'', ksync_exclude_list)"]
      fr
    by (simp add: agent_task_policy_def db_exclude_list_def flow_exclude_list_def
        sandesh_exclude_list_def xmpp_config_exclude_list_def
        xmpp_state_machine_exclude_list_def ksync_exclude_list_def)
qed

text \<open>The theorem on the fresh scheduler, where the six policies are all there is.\<close>
theorem SetAgentTaskPolicy_table_witness:
  "sched_wf TaskScheduler_new \<and>
   policy_of (SetAgentTaskPolicy TaskScheduler_new) ''Agent::KSync'' =
     Some [Some ''Agent::FlowHandler'', Some ''Agent::StatsCollector'', Some ''db::DBTable''] \<and>
   installed_policies (SetAgentTaskPolicy TaskScheduler_new) =
     [(Some ''db::DBTable'',
       [Some ''Agent::FlowHandler'', Some ''Agent::Services'', Some ''Agent::StatsCollector'',
        Some ''sandesh::RecvQueue'', Some ''io::ReaderTask'', Some ''Agent::Uve'',
        Some ''Agent::KSync'']),
      (Some ''Agent::FlowHandler'', [Some ''Agent::StatsCollector'', Some ''io::ReaderTask'']),
      (Some ''sandesh::RecvQueue'',
       [Some ''db::DBTable'', Some ''Agent::FlowHandler'', Some ''Agent::Services'',
        Some ''Agent::StatsCollector'', Some ''io::ReaderTask'']),
      (Some ''bgp::Config'',
       [Some ''Agent::FlowHandler'', Some ''Agent::Services'', Some ''Agent::StatsCollector'',
        Some ''sandesh::RecvQueue'', Some ''io::ReaderTask'', Some ''xmpp::StateMachine'',
        Some ''db::DBTable'']),
      (Some ''xmpp::StateMachine'', [Some ''io::ReaderTask'', Some ''db::DBTable'']),
      (Some ''Agent::KSync'',
       [Some ''Agent::FlowHandler'', Some ''Agent::StatsCollector'', Some ''db::DBTable''])]"
proof -
  have wf: "sched_wf TaskScheduler_new" by (simp add: sched_wf_def TaskScheduler_new_def)
  have ev: "installed_policies (SetAgentTaskPolicy TaskScheduler_new) =
     [(Some ''db::DBTable'',
       [Some ''Agent::FlowHandler'', Some ''Agent::Services'', Some ''Agent::StatsCollector'',
        Some ''sandesh::RecvQueue'', Some ''io::ReaderTask'', Some ''Agent::Uve'',
        Some ''Agent::KSync'']),
      (Some ''Agent::FlowHandler'', [Some ''Agent::StatsCollector'', Some ''io::ReaderTask'']),
      (Some ''sandesh::RecvQueue'',
       [Some ''db::DBTable'', Some ''Agent::FlowHandler'', Some ''Agent::Services'',
        Some ''Agent::StatsCollector'', Some ''io::ReaderTask'']),
      (Some ''bgp::Config'',
       [Some ''Agent::FlowHandler'', Some ''Agent::Services'', Some ''Agent::StatsCollector'',
        Some ''sandesh::RecvQueue'', Some ''io::ReaderTask'', Some ''xmpp::StateMachine'',
        Some ''db::DBTable'']),
      (Some ''xmpp::StateMachine'', [Some ''io::ReaderTask'', Some ''db::DBTable'']),
      (Some ''Agent::KSync'',
       [Some ''Agent::FlowHandler'', Some ''Agent::StatsCollector'', Some ''db::DBTable''])]"
    by code_simp
  show ?thesis
    using wf ev SetAgentTaskPolicy_table [OF wf] by simp
qed

section \<open>Deleting a VRF\<close>



text \<open>
  Claim C9. For every request, add-or-update or delete, whose key finds an entry with the
  deleted flag set, \<open>VrfTable::Input\<close> returns without calling the base class's \<open>Input\<close>:
  the table is as before but for one trace line, so the entry is neither modified nor
  created anew; and \<open>VrfTable::CanNotify\<close> answers no for the name of such an entry.
\<close>
theorem VrfTable_Input_pending_delete:
  assumes "partition_map tbl (req_key req) = Some entry" and "IsDeleted entry"
  shows "VrfTable_Input AgentDBTable_Input tbl req =
           tbl\<lparr>trace := trace tbl @
                  [OperTrace ''VRF pending delete, Ignoring DB operation for '' (vrf_name entry)]\<rparr> \<and>
         partition_map (VrfTable_Input AgentDBTable_Input tbl req) = partition_map tbl \<and>
         fst (CanNotify tbl (req_key req)) = False"
  using assms by (simp add: VrfTable_Input_def CanNotify_def Let_def)

text \<open>The theorem on a table whose entry is deleted, with a request to add the VRF
  again and a base class that would empty the table.\<close>
theorem VrfTable_Input_pending_delete_witness:
  "partition_map (ex_vrf_table (ex_vrf\<lparr>IsDeleted := True\<rparr>))
       (req_key \<lparr>oper = DB_ENTRY_ADD_CHANGE, req_key = ''vrf-a''\<rparr>)
     = Some (ex_vrf\<lparr>IsDeleted := True\<rparr>) \<and>
   IsDeleted (ex_vrf\<lparr>IsDeleted := True\<rparr>) \<and>
   partition_map (VrfTable_Input ex_base_input (ex_vrf_table (ex_vrf\<lparr>IsDeleted := True\<rparr>))
                    \<lparr>oper = DB_ENTRY_ADD_CHANGE, req_key = ''vrf-a''\<rparr>) ''vrf-a''
     = Some (ex_vrf\<lparr>IsDeleted := True\<rparr>) \<and>
   \<not> fst (CanNotify (ex_vrf_table (ex_vrf\<lparr>IsDeleted := True\<rparr>)) ''vrf-a'')"
proof -
  have h1: "partition_map (ex_vrf_table (ex_vrf\<lparr>IsDeleted := True\<rparr>))
              (req_key \<lparr>oper = DB_ENTRY_ADD_CHANGE, req_key = ''vrf-a''\<rparr>)
            = Some (ex_vrf\<lparr>IsDeleted := True\<rparr>)"
    by (simp add: ex_vrf_table_def)
  have h2: "IsDeleted (ex_vrf\<lparr>IsDeleted := True\<rparr>)" by simp
  show ?thesis
    using h1 h2 VrfTable_Input_pending_delete [OF h1 h2, of ex_base_input]
    by simp
qed

text \<open>
  Claim C10. \<open>VrfEntry::DeleteActor::MayDelete\<close> returns true for every VRF entry, whatever
  its route tables hold; so an entry whose delete actor is pending is eligible for
  retirement exactly when its reference count is zero.
\<close>
theorem MayDelete_unconditional:
  "MayDelete vrf \<and> (retirement_eligible vrf \<longleftrightarrow> deleter_pending vrf \<and> RefCount vrf = 0)"
  by (simp add: MayDelete_def retirement_eligible_def)

text \<open>The theorem on a pending VRF without references that still has 12 unicast
  routes.\<close>
theorem MayDelete_unconditional_witness:
  "rt_table_db (ex_vrf\<lparr>RefCount := 0, deleter_pending := True\<rparr>) INET4_UNICAST = 12 \<and>
   MayDelete (ex_vrf\<lparr>RefCount := 0, deleter_pending := True\<rparr>) \<and>
   retirement_eligible (ex_vrf\<lparr>RefCount := 0, deleter_pending := True\<rparr>)"
  using MayDelete_unconditional [of "ex_vrf\<lparr>RefCount := 0, deleter_pending := True\<rparr>"]
  by (simp add: ex_vrf_def)

section \<open>Paired aging\<close>
























end
